theory Spec2Isabelle
  imports Main "HOL-Library.Word" "HOL-Library.Signed_Division" "HOL-Library.Monad_Syntax"
begin

section \<open>Go integers\<close>

text \<open>
  Go's \<open>int\<close> is a 64-bit two's-complement integer on the usual platforms.  It is modelled
  as an \<open>int\<close> with the wrap-around written out: every arithmetic operation of the source
  whose operands are not bounded by construction goes through \<open>wrap64\<close>.  Go's \<open>/\<close> and
  \<open>%\<close> truncate towards zero (\<open>sdiv\<close> and \<open>smod\<close>).
\<close>

definition wrap64 :: "int \<Rightarrow> int" where
  "wrap64 x = (x + 2 ^ 63) mod 2 ^ 64 - 2 ^ 63"

definition go_add :: "int \<Rightarrow> int \<Rightarrow> int" where
  "go_add a b = wrap64 (a + b)"

definition go_sub :: "int \<Rightarrow> int \<Rightarrow> int" where
  "go_sub a b = wrap64 (a - b)"

definition go_mul :: "int \<Rightarrow> int \<Rightarrow> int" where
  "go_mul a b = wrap64 (a * b)"

definition go_div :: "int \<Rightarrow> int \<Rightarrow> int" where
  "go_div a b = wrap64 (a sdiv b)"

definition go_rem :: "int \<Rightarrow> int \<Rightarrow> int" where
  "go_rem a b = a smod b"

definition in_int64 :: "int \<Rightarrow> bool" where
  "in_int64 x = (- (2 ^ 63) \<le> x \<and> x < 2 ^ 63)"

section \<open>Calendar arithmetic\<close>

definition isLeapYear :: "int \<Rightarrow> bool" where
  "isLeapYear y = (go_rem y 4 = 0 \<and> (go_rem y 100 \<noteq> 0 \<or> go_rem y 400 = 0))"

definition daysInYear :: "int \<Rightarrow> int" where
  "daysInYear y = (if isLeapYear y then 366 else 365)"

text \<open>The two tables are Go arrays; an index outside the array panics (\<open>None\<close>).\<close>

definition daysInQuarterList :: "int list" where
  "daysInQuarterList = [0, 90, 91, 92, 92]"

definition daysInMonthList :: "int list" where
  "daysInMonthList = [0, 31, 28, 31, 30, 31, 30, 31, 31, 30, 31, 30, 31]"

definition array_index :: "'a list \<Rightarrow> int \<Rightarrow> 'a option" where
  "array_index xs i = (if 0 \<le> i \<and> i < int (length xs) then Some (xs ! nat i) else None)"

definition daysInQuarter :: "int \<Rightarrow> int \<Rightarrow> int option" where
  "daysInQuarter y q =
     (if q = 1 \<and> isLeapYear y then Some 91 else array_index daysInQuarterList q)"

definition daysInMonth :: "int \<Rightarrow> int \<Rightarrow> int option" where
  "daysInMonth y m =
     (if m = 2 \<and> isLeapYear y then Some 29 else array_index daysInMonthList m)"

definition weeksInYear :: "int \<Rightarrow> int" where
  "weeksInYear year0 =
     (let year = (if year0 < 1
                  then go_add year0 (go_mul 400 (go_sub 1 (go_div year0 400)))
                  else year0);
          y = go_sub year 1;
          d = go_rem (go_add (go_sub (go_add y (go_div y 4)) (go_div y 100)) (go_div y 400)) 7
      in if d = 3 \<or> (d = 2 \<and> isLeapYear year) then 53 else 52)"

section \<open>Go's \<open>time\<close> package\<close>

text \<open>
  The conversions call \<open>time.Date\<close>, \<open>Time.AddDate\<close>, \<open>Time.Year\<close>, \<open>Time.Month\<close>,
  \<open>Time.Day\<close> and \<open>Time.Weekday\<close> of Go's standard library, which is not part of the
  repository.  Every time value built here is a midnight in UTC, so a \<open>Time\<close> is modelled
  as its day number, counted from 0001-01-01 (day 0, a Monday).  The functions follow the
  library's own algorithms on day numbers: \<open>daysSinceEpoch\<close> and \<open>absDate\<close> cut the count
  into cycles of 400, 100, 4 and 1 years, \<open>Date\<close> normalises the month into the year and
  adds the day offset, \<open>AddDate\<close> splits a time into its fields and rebuilds it.  (The
  library counts from the year -292277022399, which differs from year 1 by a multiple of
  400 years, that is by a whole number of weeks and of calendar cycles.)
\<close>

type_synonym Time = int

definition isLeap :: "int \<Rightarrow> bool" where
  "isLeap year = (go_rem year 4 = 0 \<and> (go_rem year 100 \<noteq> 0 \<or> go_rem year 400 = 0))"

definition daysBefore :: "int list" where
  "daysBefore = [0, 31, 59, 90, 120, 151, 181, 212, 243, 273, 304, 334, 365]"

definition daysSinceEpoch :: "int \<Rightarrow> int" where
  "daysSinceEpoch year =
     (let y = year - 1;
          n400 = y div 400; y1 = y - 400 * n400;
          n100 = y1 div 100; y2 = y1 - 100 * n100;
          n4 = y2 div 4; y3 = y2 - 4 * n4
      in 146097 * n400 + 36524 * n100 + 1461 * n4 + 365 * y3)"

definition time_Date :: "int \<Rightarrow> int \<Rightarrow> int \<Rightarrow> Time" where
  "time_Date year0 month0 day =
     (let m = month0 - 1;
          year = year0 + m div 12;
          month = m mod 12 + 1;
          d = daysSinceEpoch year + daysBefore ! nat (month - 1);
          d' = (if isLeap year \<and> month \<ge> 3 then d + 1 else d)
      in d' + (day - 1))"

definition absYearDay :: "Time \<Rightarrow> int \<times> int" where
  "absYearDay t =
     (let n400 = t div 146097; d1 = t - 146097 * n400;
          n100a = d1 div 36524; n100 = n100a - n100a div 4; d2 = d1 - 36524 * n100;
          n4 = d2 div 1461; d3 = d2 - 1461 * n4;
          n1a = d3 div 365; n1 = n1a - n1a div 4; yday = d3 - 365 * n1
      in (400 * n400 + 100 * n100 + 4 * n4 + n1 + 1, yday))"

definition monthDay :: "bool \<Rightarrow> int \<Rightarrow> int \<times> int" where
  "monthDay leap yday =
     (if leap \<and> yday = 31 + 29 - 1 then (2, 29)
      else
        let day = (if leap \<and> yday > 31 + 29 - 1 then yday - 1 else yday);
            month = day div 31;
            end = daysBefore ! nat (month + 1)
        in if day \<ge> end then (month + 2, day - end + 1)
           else (month + 1, day - daysBefore ! nat month + 1))"

definition absDate :: "Time \<Rightarrow> int \<times> int \<times> int" where
  "absDate t =
     (let (year, yday) = absYearDay t; (month, day) = monthDay (isLeap year) yday
      in (year, month, day))"

definition time_Year :: "Time \<Rightarrow> int" where
  "time_Year t = fst (absDate t)"

definition time_Month :: "Time \<Rightarrow> int" where
  "time_Month t = fst (snd (absDate t))"

definition time_Day :: "Time \<Rightarrow> int" where
  "time_Day t = snd (snd (absDate t))"

text \<open>Weekdays are numbered from Sunday = 0, so Thursday is 4.\<close>

definition time_Weekday :: "Time \<Rightarrow> int" where
  "time_Weekday t = (t + 1) mod 7"

definition Thursday :: int where
  "Thursday = 4"

definition Wednesday :: int where
  "Wednesday = 3"

definition AddDate :: "Time \<Rightarrow> int \<Rightarrow> int \<Rightarrow> int \<Rightarrow> Time" where
  "AddDate t years months days =
     (let (year, month, day) = absDate t
      in time_Date (year + years) (month + months) (day + days))"

section \<open>The day count and the calendar agree\<close>

text \<open>
  Facts about the model of the \<open>time\<close> package that the conversions rely on: a day
  number splits into a year, a month and a day that are valid for each other, \<open>Date\<close>
  rebuilds the day number from them, and \<open>AddDate\<close> with days only adds to the day
  number.
\<close>

lemma go_rem_zero_iff: "(go_rem y n = 0) = (n dvd y)"
  unfolding go_rem_def signed_modulo_int_def
  by (simp add: mod_eq_0_iff_dvd sgn_if)

lemma isLeap_dvd: "isLeap y = (4 dvd y \<and> (\<not> 100 dvd y \<or> 400 dvd y))"
  by (simp add: isLeap_def go_rem_zero_iff)

lemma isLeapYear_isLeap: "isLeapYear y = isLeap y"
  by (simp add: isLeap_def isLeapYear_def)

lemma dse_closed: "daysSinceEpoch y = 365 * (y - 1) + (y - 1) div 4 - (y - 1) div 100 + (y - 1) div 400"
proof -
  define z where "z = y - 1"
  define a where "a = z div 400"
  define r where "r = z mod 400"
  define b where "b = r div 100"
  define s where "s = r mod 100"
  define c where "c = s div 4"
  define e where "e = s mod 4"
  have z: "z = 400 * a + r" by (simp add: a_def r_def)
  have r: "r = 100 * b + s" by (simp add: b_def s_def)
  have s: "s = 4 * c + e" by (simp add: c_def e_def)
  have rb: "0 \<le> r" "r < 400" by (simp_all add: r_def)
  have sb: "0 \<le> s" "s < 100" by (simp_all add: s_def)
  have eb: "0 \<le> e" "e < 4" by (simp_all add: e_def)
  have bb: "0 \<le> b" "b < 4" using rb by (simp_all add: b_def)
  have cb: "0 \<le> c" "c < 25" using sb by (simp_all add: c_def)
  have d400: "z div 400 = a" by (simp add: a_def)
  have d100: "z div 100 = 4 * a + b"
  proof -
    have "z = 100 * (4 * a + b) + s" using z r by simp
    then show ?thesis using sb by simp
  qed
  have d4: "z div 4 = 100 * a + 25 * b + c"
  proof -
    have "z = 4 * (100 * a + 25 * b + c) + e" using z r s by simp
    then show ?thesis using eb by simp
  qed
  have y1: "z - 400 * (z div 400) = r" by (simp add: r_def minus_mult_div_eq_mod)
  have y2: "r - 100 * (r div 100) = s" by (simp add: s_def minus_mult_div_eq_mod)
  have y3: "s - 4 * (s div 4) = e" by (simp add: e_def minus_mult_div_eq_mod)
  have lhs: "daysSinceEpoch y = 146097 * a + 36524 * b + 1461 * c + 365 * e"
    unfolding daysSinceEpoch_def Let_def z_def[symmetric] y1 y2 y3
    by (simp add: a_def b_def c_def)
  show ?thesis
    unfolding lhs z_def[symmetric] d400 d100 d4 using z r s by simp
qed

lemma div_step:
  assumes n: "0 < (n::int)"
  shows "y div n = (y - 1) div n + (if n dvd y then 1 else 0)"
proof -
  define q where "q = (y - 1) div n"
  define r where "r = (y - 1) mod n"
  have y: "y = n * q + (r + 1)" by (simp add: q_def r_def)
  have rb: "0 \<le> r" "r < n" using n by (simp_all add: r_def)
  have d: "y div n = q + (r + 1) div n"
    unfolding y using n by simp
  have dv: "n dvd y \<longleftrightarrow> n dvd (r + 1)"
    unfolding y by (simp add: dvd_add_right_iff)
  show ?thesis
  proof (cases "r + 1 = n")
    case True
    then show ?thesis using d dv n by (simp add: q_def)
  next
    case False
    then have lt: "r + 1 < n" using rb by simp
    then have "(r + 1) div n = 0" using rb by simp
    moreover have "\<not> n dvd (r + 1)" using lt rb by (simp add: zdvd_not_zless)
    ultimately show ?thesis using d dv by (simp add: q_def)
  qed
qed

definition leaps :: "int \<Rightarrow> int" where "leaps z = z div 4 - z div 100 + z div 400"

lemma dse_leaps: "daysSinceEpoch y = 365 * (y - 1) + leaps (y - 1)"
  by (simp add: dse_closed leaps_def)

lemma leaps_step: "leaps y = leaps (y - 1) + (if isLeap y then 1 else 0)"
proof -
  have a: "400 dvd y \<Longrightarrow> 100 dvd y" by (rule dvd_trans[of 100 400]) simp_all
  have b: "100 dvd y \<Longrightarrow> 4 dvd y" by (rule dvd_trans[of 4 100]) simp_all
  have e4: "y div 4 = (y - 1) div 4 + (if 4 dvd y then 1 else 0)" by (rule div_step) simp
  have e100: "y div 100 = (y - 1) div 100 + (if 100 dvd y then 1 else 0)" by (rule div_step) simp
  have e400: "y div 400 = (y - 1) div 400 + (if 400 dvd y then 1 else 0)" by (rule div_step) simp
  show ?thesis
    unfolding leaps_def isLeap_dvd e4 e100 e400
    using a b by (cases "4 dvd y"; cases "100 dvd y"; cases "400 dvd y"; simp)
qed

lemma dse_Suc: "daysSinceEpoch (y + 1) = daysSinceEpoch y + (if isLeap y then 366 else 365)"
  unfolding dse_leaps using leaps_step[of y] by (simp split: if_splits)

lemma div_eqI: "0 \<le> r \<Longrightarrow> r < n \<Longrightarrow> x = n * q + r \<Longrightarrow> x div n = (q::int)"
  by simp

lemma shave4: "0 \<le> k \<Longrightarrow> k \<le> 4 \<Longrightarrow> k - k div 4 = (if k = 4 then 3 else (k::int))"
proof -
  assume "0 \<le> k" "k \<le> 4"
  then consider "k = 0" | "k = 1" | "k = 2" | "k = 3" | "k = 4" by linarith
  then show ?thesis by cases simp_all
qed

lemma absYearDay_props:
  assumes "absYearDay t = (y, yd)"
  shows "t = daysSinceEpoch y + yd \<and> 0 \<le> yd \<and> yd < (if isLeap y then 366 else 365)"
proof -
  define a where "a = t div 146097"
  define d1 where "d1 = t - 146097 * a"
  define n100a where "n100a = d1 div 36524"
  define r1 where "r1 = d1 mod 36524"
  define n100 where "n100 = n100a - n100a div 4"
  define d2 where "d2 = d1 - 36524 * n100"
  define n4 where "n4 = d2 div 1461"
  define d3 where "d3 = d2 - 1461 * n4"
  define n1a where "n1a = d3 div 365"
  define r4 where "r4 = d3 mod 365"
  define n1 where "n1 = n1a - n1a div 4"
  have t: "t = 146097 * a + d1" by (simp add: d1_def)
  have d1m: "d1 = t mod 146097" by (simp add: d1_def a_def minus_mult_div_eq_mod)
  have d1b: "0 \<le> d1" "d1 < 146097" by (simp_all add: d1m)
  have d1: "d1 = 36524 * n100a + r1" by (simp add: n100a_def r1_def)
  have r1b: "0 \<le> r1" "r1 < 36524" by (simp_all add: r1_def)
  have n100ab: "0 \<le> n100a" "n100a \<le> 4" using d1 d1b r1b by linarith+
  have n100: "n100 = (if n100a = 4 then 3 else n100a)"
    unfolding n100_def using n100ab by (rule shave4)
  have n100b: "0 \<le> n100" "n100 \<le> 3" using n100 n100ab by (simp_all split: if_splits)
  have d2b: "0 \<le> d2" "d2 \<le> 36524" "d2 = 36524 \<longrightarrow> n100 = 3"
    using d1 d1b r1b n100 n100ab unfolding d2_def by (auto split: if_splits)
  have d2: "d2 = 1461 * n4 + d3" by (simp add: d3_def)
  have d3m: "d3 = d2 mod 1461" by (simp add: d3_def n4_def minus_mult_div_eq_mod)
  have d3b: "0 \<le> d3" "d3 < 1461" by (simp_all add: d3m)
  have n4b: "0 \<le> n4" "n4 \<le> 24" using d2 d2b d3b by linarith+
  have d3: "d3 = 365 * n1a + r4" by (simp add: n1a_def r4_def)
  have r4b: "0 \<le> r4" "r4 < 365" by (simp_all add: r4_def)
  have n1ab: "0 \<le> n1a" "n1a \<le> 4" using d3 d3b r4b by linarith+
  have n1: "n1 = (if n1a = 4 then 3 else n1a)"
    unfolding n1_def using n1ab by (rule shave4)
  have n1b: "0 \<le> n1" "n1 \<le> 3" using n1 n1ab by (simp_all split: if_splits)
  have "absYearDay t = (400 * a + 100 * n100 + 4 * n4 + n1 + 1, d3 - 365 * n1)"
    unfolding absYearDay_def Let_def n1_def n1a_def d3_def n4_def d2_def n100_def n100a_def
      d1_def a_def by (rule refl)
  then have yy: "y = 400 * a + 100 * n100 + 4 * n4 + n1 + 1" and yd: "yd = d3 - 365 * n1"
    using assms by simp_all
  define z where "z = y - 1"
  have z: "z = 400 * a + 100 * n100 + 4 * n4 + n1" by (simp add: z_def yy)
  have z400: "z div 400 = a"
    by (rule div_eqI[where r = "100 * n100 + 4 * n4 + n1"]) (use n100b n4b n1b z in simp_all)
  have z100: "z div 100 = 4 * a + n100"
    by (rule div_eqI[where r = "4 * n4 + n1"]) (use n4b n1b z in simp_all)
  have z4: "z div 4 = 100 * a + 25 * n100 + n4"
    by (rule div_eqI[where r = "n1"]) (use n1b z in simp_all)
  have dse: "daysSinceEpoch y = 146097 * a + 36524 * n100 + 1461 * n4 + 365 * n1"
    unfolding dse_closed z_def[symmetric] z400 z100 z4 by (simp add: z)
  have c1: "t = daysSinceEpoch y + yd"
    unfolding dse yd using t d2 by (simp add: d2_def)
  have ydb: "0 \<le> yd" "yd \<le> 365" "yd = 365 \<longrightarrow> n1 = 3 \<and> d3 = 1460"
    using d3 d3b r4b n1 n1ab unfolding yd by (auto split: if_splits)
  have leap: "isLeap y" if h: "yd = 365"
  proof -
    have n13: "n1 = 3" and d3v: "d3 = 1460" using ydb h by simp_all
    have y4: "y = 4 * (100 * a + 25 * n100 + n4 + 1)" using yy n13 by simp
    have dv4: "4 dvd y" unfolding y4 by simp
    have imp: "400 dvd y" if h100: "100 dvd y"
    proof -
      have "y = 100 * (4 * a + n100) + (4 * n4 + 4)" using yy n13 by simp
      then have "100 dvd (4 * n4 + 4)" using h100 by (simp add: dvd_add_right_iff)
      then have "100 \<le> 4 * n4 + 4" using n4b by (intro zdvd_imp_le) simp_all
      then have n4v: "n4 = 24" using n4b by simp
      then have "d2 = 36524" using d2 d3v by simp
      then have "n100 = 3" using d2b by simp
      then have "y = 400 * (a + 1)" using yy n13 n4v by simp
      then show ?thesis by simp
    qed
    show ?thesis unfolding isLeap_dvd using dv4 imp by blast
  qed
  have c3: "yd < (if isLeap y then 366 else 365)"
    using ydb leap by (cases "yd = 365") auto
  show ?thesis using c1 ydb(1) c3 by simp
qed

lemma int_cases12:
  assumes "0 \<le> (k::int)" "k \<le> 11"
  obtains "k = 0" | "k = 1" | "k = 2" | "k = 3" | "k = 4" | "k = 5" | "k = 6"
    | "k = 7" | "k = 8" | "k = 9" | "k = 10" | "k = 11"
proof -
  have "k = 0 \<or> k = 1 \<or> k = 2 \<or> k = 3 \<or> k = 4 \<or> k = 5 \<or> k = 6
    \<or> k = 7 \<or> k = 8 \<or> k = 9 \<or> k = 10 \<or> k = 11"
    using assms by presburger
  then show ?thesis using that by blast
qed

lemma monthDay_props:
  assumes yd: "0 \<le> yd" "yd < (if isLeap y then 366 else 365)"
    and md: "monthDay (isLeap y) yd = (m, d)"
  shows "1 \<le> m \<and> m \<le> 12 \<and> 1 \<le> d \<and> (\<exists>n. daysInMonth y m = Some n \<and> d \<le> n) \<and>
         daysBefore ! nat (m - 1) + (if isLeap y \<and> 3 \<le> m then 1 else 0) + (d - 1) = yd"
proof (cases "isLeap y \<and> yd = 59")
  case True
  then have "m = 2" "d = 29" using md by (simp_all add: monthDay_def)
  then show ?thesis using True
    by (simp add: daysInMonth_def isLeapYear_isLeap daysBefore_def)
next
  case False
  define day where "day = (if isLeap y \<and> yd > 59 then yd - 1 else yd)"
  define k where "k = day div 31"
  define r where "r = day mod 31"
  have dayb: "0 \<le> day" "day < 365" using yd False by (auto simp: day_def split: if_splits)
  have day: "day = 31 * k + r" by (simp add: k_def r_def)
  have rb: "0 \<le> r" "r < 31" by (simp_all add: r_def)
  have kb: "0 \<le> k" "k \<le> 11" using day dayb rb by linarith+
  have "monthDay (isLeap y) yd =
      (if day \<ge> daysBefore ! nat (k + 1) then (k + 2, day - daysBefore ! nat (k + 1) + 1)
       else (k + 1, day - daysBefore ! nat k + 1))"
    unfolding monthDay_def Let_def k_def day_def using False by auto
  then have md': "(m, d) = (if day \<ge> daysBefore ! nat (k + 1) then (k + 2, day - daysBefore ! nat (k + 1) + 1)
           else (k + 1, day - daysBefore ! nat k + 1))"
    using md by simp
  have ydday: "yd = (if isLeap y \<and> day \<ge> 59 then day + 1 else day)"
    using False by (auto simp: day_def)
  from kb show ?thesis
  proof (cases rule: int_cases12)
    case 1 then show ?thesis using md' ydday day rb dayb
      by (auto simp: daysInMonth_def isLeapYear_isLeap daysBefore_def daysInMonthList_def array_index_def split: if_splits)
  next
    case 2 then show ?thesis using md' ydday day rb dayb
      by (auto simp: daysInMonth_def isLeapYear_isLeap daysBefore_def daysInMonthList_def array_index_def split: if_splits)
  next
    case 3 then show ?thesis using md' ydday day rb dayb
      by (auto simp: daysInMonth_def isLeapYear_isLeap daysBefore_def daysInMonthList_def array_index_def split: if_splits)
  next
    case 4 then show ?thesis using md' ydday day rb dayb
      by (auto simp: daysInMonth_def isLeapYear_isLeap daysBefore_def daysInMonthList_def array_index_def split: if_splits)
  next
    case 5 then show ?thesis using md' ydday day rb dayb
      by (auto simp: daysInMonth_def isLeapYear_isLeap daysBefore_def daysInMonthList_def array_index_def split: if_splits)
  next
    case 6 then show ?thesis using md' ydday day rb dayb
      by (auto simp: daysInMonth_def isLeapYear_isLeap daysBefore_def daysInMonthList_def array_index_def split: if_splits)
  next
    case 7 then show ?thesis using md' ydday day rb dayb
      by (auto simp: daysInMonth_def isLeapYear_isLeap daysBefore_def daysInMonthList_def array_index_def split: if_splits)
  next
    case 8 then show ?thesis using md' ydday day rb dayb
      by (auto simp: daysInMonth_def isLeapYear_isLeap daysBefore_def daysInMonthList_def array_index_def split: if_splits)
  next
    case 9 then show ?thesis using md' ydday day rb dayb
      by (auto simp: daysInMonth_def isLeapYear_isLeap daysBefore_def daysInMonthList_def array_index_def split: if_splits)
  next
    case 10 then show ?thesis using md' ydday day rb dayb
      by (auto simp: daysInMonth_def isLeapYear_isLeap daysBefore_def daysInMonthList_def array_index_def split: if_splits)
  next
    case 11 then show ?thesis using md' ydday day rb dayb
      by (auto simp: daysInMonth_def isLeapYear_isLeap daysBefore_def daysInMonthList_def array_index_def split: if_splits)
  next
    case 12 then show ?thesis using md' ydday day rb dayb
      by (auto simp: daysInMonth_def isLeapYear_isLeap daysBefore_def daysInMonthList_def array_index_def split: if_splits)
  qed
qed

lemma time_Date_month:
  assumes "1 \<le> m" "m \<le> 12"
  shows "time_Date y m d =
    daysSinceEpoch y + daysBefore ! nat (m - 1) + (if isLeap y \<and> 3 \<le> m then 1 else 0) + (d - 1)"
proof -
  have "(m - 1) div 12 = 0" "(m - 1) mod 12 = m - 1" using assms by simp_all
  then show ?thesis unfolding time_Date_def Let_def by simp
qed

lemma time_Date_Jan1: "time_Date y 1 1 = daysSinceEpoch y"
  by (simp add: time_Date_month daysBefore_def)

lemma absDate_props:
  assumes "absDate t = (y, m, d)"
  shows "1 \<le> m \<and> m \<le> 12 \<and> 1 \<le> d \<and> (\<exists>n. daysInMonth y m = Some n \<and> d \<le> n) \<and>
     time_Date y m d = t \<and> daysSinceEpoch y \<le> t \<and> t < daysSinceEpoch (y + 1)"
proof -
  obtain yd where yd: "absYearDay t = (y, yd)" and md: "monthDay (isLeap y) yd = (m, d)"
    using assms unfolding absDate_def Let_def by (auto split: prod.splits)
  note A = absYearDay_props[OF yd]
  from A have B: "1 \<le> m \<and> m \<le> 12 \<and> 1 \<le> d \<and> (\<exists>n. daysInMonth y m = Some n \<and> d \<le> n) \<and>
         daysBefore ! nat (m - 1) + (if isLeap y \<and> 3 \<le> m then 1 else 0) + (d - 1) = yd"
    by (intro monthDay_props[OF _ _ md]) simp_all
  have "time_Date y m d = t" using A B by (simp add: time_Date_month)
  moreover have "t < daysSinceEpoch (y + 1)" using A unfolding dse_Suc by (simp split: if_splits)
  ultimately show ?thesis using A B by simp
qed

lemma AddDate_days: "AddDate t 0 0 n = t + n"
proof -
  obtain y m d where a: "absDate t = (y, m, d)" by (metis prod_cases3)
  note P = absDate_props[OF a]
  have m: "1 \<le> m" "m \<le> 12" using P by simp_all
  have "time_Date y m (d + n) = time_Date y m d + n"
    by (simp add: time_Date_month[OF m])
  then show ?thesis using P a by (simp add: AddDate_def)
qed

lemma dse_mono: "a \<le> b \<Longrightarrow> daysSinceEpoch a \<le> daysSinceEpoch b"
proof (induction b rule: int_ge_induct)
  case base
  show ?case by simp
next
  case (step i)
  then show ?case unfolding dse_Suc by (simp split: if_splits)
qed

lemma time_Year_lower: "daysSinceEpoch A \<le> t \<Longrightarrow> A \<le> time_Year t"
proof (rule ccontr)
  assume h: "daysSinceEpoch A \<le> t" and n: "\<not> A \<le> time_Year t"
  obtain y m d where a: "absDate t = (y, m, d)" by (metis prod_cases3)
  have y: "time_Year t = y" by (simp add: time_Year_def a)
  have "daysSinceEpoch (y + 1) \<le> daysSinceEpoch A" using n y by (intro dse_mono) simp
  then show False using absDate_props[OF a] h by simp
qed

lemma time_Year_upper: "t < daysSinceEpoch B \<Longrightarrow> time_Year t < B"
proof (rule ccontr)
  assume h: "t < daysSinceEpoch B" and n: "\<not> time_Year t < B"
  obtain y m d where a: "absDate t = (y, m, d)" by (metis prod_cases3)
  have y: "time_Year t = y" by (simp add: time_Year_def a)
  have "daysSinceEpoch B \<le> daysSinceEpoch y" using n y by (intro dse_mono) simp
  then show False using absDate_props[OF a] h by simp
qed

lemma time_Year_eq:
  "daysSinceEpoch Y \<le> t \<Longrightarrow> t < daysSinceEpoch (Y + 1) \<Longrightarrow> time_Year t = Y"
  using time_Year_lower[of Y t] time_Year_upper[of t "Y + 1"] by simp

lemma time_fields_valid:
  "1 \<le> time_Month t \<and> time_Month t \<le> 12 \<and> 1 \<le> time_Day t \<and>
   (\<exists>n. daysInMonth (time_Year t) (time_Month t) = Some n \<and> time_Day t \<le> n)"
proof -
  obtain y m d where a: "absDate t = (y, m, d)" by (metis prod_cases3)
  show ?thesis using absDate_props[OF a] by (simp add: time_Year_def time_Month_def time_Day_def a)
qed

section \<open>Date representations\<close>

text \<open>
  The four structs, the interface \<open>DateLike\<close> as the sum of its four implementations, and
  the two error types.  A Go interface value or error that is \<open>nil\<close> is \<open>None\<close>.  A
  function that can panic (an index out of range) returns an \<open>option\<close> whose \<open>None\<close> is
  the panic.  \<open>UnexpectedTokenError\<close> is declared elsewhere in the package; it is the struct
  of the four string fields that the parser fills in.
\<close>

datatype Date = Date (Year: int) (Month: int) (Day: int)

datatype QuarterDate = QuarterDate (Year: int) (Quarter: int) (Day: int)

datatype WeekDate = WeekDate (Year: int) (Week: int) (Day: int)

datatype OrdinalDate = OrdinalDate (Year: int) (Day: int)

datatype DateLike = DLDate Date | DLQuarter QuarterDate | DLWeek WeekDate | DLOrdinal OrdinalDate

datatype DateLikeRangeError =
  DateLikeRangeError (Element: string) (Value: int) (Year: int) (Min: int) (Max: int)

datatype UnexpectedTokenError =
  UnexpectedTokenError (Value: string) (Token: string) (AfterToken: string) (Expected: string)

datatype error = RangeError DateLikeRangeError | TokenError UnexpectedTokenError

subsection \<open>Validate\<close>

definition Date_Validate :: "Date \<Rightarrow> DateLikeRangeError option option" where
  "Date_Validate d =
     (if Date.Year d < 0 \<or> Date.Year d > 9999
      then Some (Some (DateLikeRangeError ''year'' (Date.Year d) (Date.Year d) 0 9999))
      else if Date.Month d < 1 \<or> Date.Month d > 12
      then Some (Some (DateLikeRangeError ''month'' (Date.Month d) (Date.Year d) 1 12))
      else do {
        dim \<leftarrow> daysInMonth (Date.Year d) (Date.Month d);
        if Date.Day d < 1 \<or> Date.Day d > dim
        then Some (Some (DateLikeRangeError ''day of month'' (Date.Day d) (Date.Year d) 1 dim))
        else Some None
      })"

definition QuarterDate_Validate :: "QuarterDate \<Rightarrow> DateLikeRangeError option option" where
  "QuarterDate_Validate q =
     (if QuarterDate.Year q < 0 \<or> QuarterDate.Year q > 9999
      then Some (Some (DateLikeRangeError ''year'' (QuarterDate.Year q) (QuarterDate.Year q) 0 9999))
      else if Quarter q < 1 \<or> Quarter q > 4
      then Some (Some (DateLikeRangeError ''quarter'' (Quarter q) (QuarterDate.Year q) 1 4))
      else do {
        diq \<leftarrow> daysInQuarter (QuarterDate.Year q) (Quarter q);
        if QuarterDate.Day q < 1 \<or> QuarterDate.Day q > diq
        then Some (Some (DateLikeRangeError ''day of quarter'' (QuarterDate.Day q)
                           (QuarterDate.Year q) 1 diq))
        else Some None
      })"

definition WeekDate_Validate :: "WeekDate \<Rightarrow> DateLikeRangeError option option" where
  "WeekDate_Validate w =
     (if WeekDate.Year w < 0 \<or> WeekDate.Year w > 9999
      then Some (Some (DateLikeRangeError ''year'' (WeekDate.Year w) (WeekDate.Year w) 0 9999))
      else if WeekDate.Day w < 1 \<or> WeekDate.Day w > 7
      then Some (Some (DateLikeRangeError ''day of week'' (WeekDate.Day w) (WeekDate.Year w) 1 7))
      else
        let wiy = weeksInYear (WeekDate.Year w)
        in if Week w < 1 \<or> Week w > wiy
           then Some (Some (DateLikeRangeError ''week'' (Week w) (WeekDate.Year w) 1 wiy))
           else Some None)"

definition OrdinalDate_Validate :: "OrdinalDate \<Rightarrow> DateLikeRangeError option option" where
  "OrdinalDate_Validate o' =
     (if OrdinalDate.Year o' < 0 \<or> OrdinalDate.Year o' > 9999
      then Some (Some (DateLikeRangeError ''year'' (OrdinalDate.Year o') (OrdinalDate.Year o') 0 9999))
      else
        let diy = daysInYear (OrdinalDate.Year o')
        in if OrdinalDate.Day o' < 1 \<or> OrdinalDate.Day o' > diy
           then Some (Some (DateLikeRangeError ''day of year'' (OrdinalDate.Day o')
                              (OrdinalDate.Year o') 1 diy))
           else Some None)"

fun Validate :: "DateLike \<Rightarrow> DateLikeRangeError option option" where
  "Validate (DLDate d) = Date_Validate d"
| "Validate (DLQuarter q) = QuarterDate_Validate q"
| "Validate (DLWeek w) = WeekDate_Validate w"
| "Validate (DLOrdinal o') = OrdinalDate_Validate o'"

text \<open>\<open>IsValid\<close> is \<open>Validate() == nil\<close>.\<close>

definition IsValid :: "DateLike \<Rightarrow> bool option" where
  "IsValid d = map_option (\<lambda>e. e = None) (Validate d)"

subsection \<open>Conversion to a calendar date\<close>

definition Date_of_Time :: "Time \<Rightarrow> Date" where
  "Date_of_Time t = Date (time_Year t) (time_Month t) (time_Day t)"

definition OrdinalDate_Date :: "OrdinalDate \<Rightarrow> Date" where
  "OrdinalDate_Date o' =
     (let yday = OrdinalDate.Day o';
          t = time_Date (OrdinalDate.Year o') 1 1;
          t' = AddDate t 0 0 (go_sub yday 1)
      in Date (OrdinalDate.Year o') (time_Month t') (time_Day t'))"

text \<open>The loop \<open>for i := 1; i < q.Quarter; i++ { yday += daysInQuarter(q.Year, i) }\<close>.\<close>

function quarter_loop :: "int \<Rightarrow> int \<Rightarrow> int \<Rightarrow> int \<Rightarrow> int option" where
  "quarter_loop year quarter i yday =
     (if i < quarter
      then (case daysInQuarter year i of
              None \<Rightarrow> None
            | Some n \<Rightarrow> quarter_loop year quarter (i + 1) (go_add yday n))
      else Some yday)"
  by pat_completeness auto
termination
  by (relation "measure (\<lambda>(year, quarter, i, yday). nat (quarter - i))") auto

definition QuarterDate_Date :: "QuarterDate \<Rightarrow> Date option" where
  "QuarterDate_Date q =
     do {
       yday \<leftarrow> quarter_loop (QuarterDate.Year q) (Quarter q) 1 (QuarterDate.Day q);
       let t = time_Date (QuarterDate.Year q) 1 1;
           t' = AddDate t 0 0 (go_sub yday 1)
       in Some (Date (time_Year t') (time_Month t') (time_Day t'))
     }"

text \<open>The loop \<open>for thursday.Weekday() != time.Thursday { thursday = thursday.AddDate(0, 0, 1) }\<close>.\<close>

function first_thursday :: "Time \<Rightarrow> Time" where
  "first_thursday thursday =
     (if time_Weekday thursday \<noteq> Thursday
      then first_thursday (AddDate thursday 0 0 1)
      else thursday)"
  by pat_completeness auto
termination
proof (relation "measure (\<lambda>t. nat ((Thursday - time_Weekday t) mod 7))")
  show "wf (measure (\<lambda>t. nat ((Thursday - time_Weekday t) mod 7)))" by simp
next
  fix thursday :: Time
  assume "time_Weekday thursday \<noteq> Thursday"
  then have "(Thursday - time_Weekday (thursday + 1)) mod 7 < (Thursday - time_Weekday thursday) mod 7"
    unfolding time_Weekday_def Thursday_def by presburger
  then show "(AddDate thursday 0 0 1, thursday) \<in> measure (\<lambda>t. nat ((Thursday - time_Weekday t) mod 7))"
    by (simp add: AddDate_days)
qed

declare first_thursday.simps [simp del]

definition WeekDate_Date :: "WeekDate \<Rightarrow> Date" where
  "WeekDate_Date w =
     (let thursday = first_thursday (time_Date (WeekDate.Year w) 1 1);
          monday = AddDate thursday 0 0 (- 3);
          t = AddDate monday 0 0 (go_sub (go_add (go_mul (go_sub (Week w) 1) 7) (WeekDate.Day w)) 1)
      in Date (time_Year t) (time_Month t) (time_Day t))"

fun DateLike_Date :: "DateLike \<Rightarrow> Date option" where
  "DateLike_Date (DLDate d) = Some d"
| "DateLike_Date (DLQuarter q) = QuarterDate_Date q"
| "DateLike_Date (DLWeek w) = Some (WeekDate_Date w)"
| "DateLike_Date (DLOrdinal o') = Some (OrdinalDate_Date o')"

section \<open>Bytes, digits and formatting\<close>

text \<open>
  A byte slice or string is a \<open>string\<close> (a list of 8-bit characters).  Byte arithmetic is
  done on \<open>8 word\<close>, so \<open>b[i] - '0'\<close> wraps around as it does in Go.  Lengths, indices and
  digit counts are never negative and are bounded by the length of the input: they are
  natural numbers.
\<close>

definition byte :: "char \<Rightarrow> 8 word" where
  "byte c = of_char c"

definition byte_at :: "string \<Rightarrow> nat \<Rightarrow> char option" where
  "byte_at b i = (if i < length b then Some (b ! i) else None)"

definition slice_from :: "string \<Rightarrow> nat \<Rightarrow> string option" where
  "slice_from b n = (if n \<le> length b then Some (drop n b) else None)"

definition slice_to :: "string \<Rightarrow> nat \<Rightarrow> string option" where
  "slice_to b n = (if n \<le> length b then Some (take n b) else None)"

function countDigits_loop :: "string \<Rightarrow> nat \<Rightarrow> nat" where
  "countDigits_loop b i =
     (if i < length b
      then (let c = byte (b ! i) - byte CHR ''0''
            in if c > 9 then i else countDigits_loop b (i + 1))
      else i)"
  by pat_completeness auto
termination
  by (relation "measure (\<lambda>(b, i). length b - i)") auto

declare countDigits_loop.simps [simp del]

definition countDigits :: "string \<Rightarrow> nat \<Rightarrow> nat" where
  "countDigits b start = countDigits_loop b start - start"

text \<open>
  \<open>parseNumber\<close>: the loop runs \<open>width\<close> times and reads \<open>b[start]\<close> each time without a
  check, so it panics when the window leaves the slice.  \<open>math.Pow10\<close> is exact on the
  widths the parser uses (at most 4), and the sum stays far below the range of \<open>int\<close>.
\<close>

fun parseNumber_loop :: "string \<Rightarrow> nat \<Rightarrow> nat \<Rightarrow> int \<Rightarrow> int option" where
  "parseNumber_loop b start 0 v = Some v"
| "parseNumber_loop b start (Suc i) v =
     (case byte_at b start of
        None \<Rightarrow> None
      | Some c \<Rightarrow> parseNumber_loop b (start + 1) i (v + uint (byte c - byte CHR ''0'') * 10 ^ i))"

definition parseNumber :: "string \<Rightarrow> nat \<Rightarrow> nat \<Rightarrow> int option" where
  "parseNumber b start width =
     (if length b \<le> start then Some 0 else parseNumber_loop b start width 0)"

text \<open>
  Decimal formatting as \<open>strconv.Itoa\<close> and the verbs \<open>%d\<close> and \<open>%0wd\<close> of \<open>fmt.Sprintf\<close>
  do it: a minus sign for a negative number, and zeros after the sign up to the width.
\<close>

definition digit_char :: "nat \<Rightarrow> char" where
  "digit_char d = char_of (48 + d)"

fun digits :: "nat \<Rightarrow> string" where
  "digits n = (if n < 10 then [digit_char n] else digits (n div 10) @ [digit_char (n mod 10)])"

declare digits.simps [simp del]

definition Itoa :: "int \<Rightarrow> string" where
  "Itoa v = (if v < 0 then CHR ''-'' # digits (nat (- v)) else digits (nat v))"

definition pad0 :: "nat \<Rightarrow> string \<Rightarrow> string" where
  "pad0 w s = replicate (w - length s) CHR ''0'' @ s"

definition fmt_0d :: "nat \<Rightarrow> int \<Rightarrow> string" where
  "fmt_0d w v =
     (if v < 0 then CHR ''-'' # pad0 (w - 1) (digits (nat (- v))) else pad0 w (digits (nat v)))"

text \<open>\<open>string(c)\<close> of a byte \<open>c\<close> is the UTF-8 encoding of the code point \<open>c\<close>.\<close>

definition string_of_byte :: "char \<Rightarrow> string" where
  "string_of_byte c =
     (let v = (of_char c :: nat)
      in if v < 128 then [c] else [char_of (192 + v div 64), char_of (128 + v mod 64)])"

definition humanizeDigits :: "nat \<Rightarrow> string" where
  "humanizeDigits n =
     (if n \<le> 1 then Itoa (int n) @ ''-digit'' else Itoa (int n) @ ''-digits'')"

subsection \<open>String\<close>

definition Date_String :: "Date \<Rightarrow> string" where
  "Date_String d =
     fmt_0d 4 (Date.Year d) @ ''-'' @ fmt_0d 2 (Date.Month d) @ ''-'' @ fmt_0d 2 (Date.Day d)"

definition QuarterDate_String :: "QuarterDate \<Rightarrow> string" where
  "QuarterDate_String q =
     fmt_0d 4 (QuarterDate.Year q) @ ''-Q'' @ Itoa (Quarter q) @ ''-'' @ fmt_0d 2 (QuarterDate.Day q)"

definition WeekDate_String :: "WeekDate \<Rightarrow> string" where
  "WeekDate_String w =
     fmt_0d 4 (WeekDate.Year w) @ ''-W'' @ fmt_0d 2 (Week w) @ ''-'' @ Itoa (WeekDate.Day w)"

definition OrdinalDate_String :: "OrdinalDate \<Rightarrow> string" where
  "OrdinalDate_String o' = fmt_0d 4 (OrdinalDate.Year o') @ ''-'' @ fmt_0d 3 (OrdinalDate.Day o')"

fun String :: "DateLike \<Rightarrow> string" where
  "String (DLDate d) = Date_String d"
| "String (DLQuarter q) = QuarterDate_String q"
| "String (DLWeek w) = WeekDate_String w"
| "String (DLOrdinal o') = OrdinalDate_String o'"

section \<open>The parser\<close>

definition validated ::
  "DateLike \<Rightarrow> DateLikeRangeError option \<Rightarrow> DateLike option \<times> error option" where
  "validated v e = (case e of Some err \<Rightarrow> (None, Some (RangeError err)) | None \<Rightarrow> (Some v, None))"

definition ydISODate :: "int \<Rightarrow> int \<Rightarrow> (DateLike option \<times> error option) option" where
  "ydISODate y d =
     do { e \<leftarrow> OrdinalDate_Validate (OrdinalDate y d);
          Some (validated (DLOrdinal (OrdinalDate y d)) e) }"

definition ymdISODate :: "int \<Rightarrow> int \<Rightarrow> int \<Rightarrow> (DateLike option \<times> error option) option" where
  "ymdISODate y m d =
     do { e \<leftarrow> Date_Validate (Date y m d);
          Some (validated (DLDate (Date y m d)) e) }"

definition yqdISODate :: "int \<Rightarrow> int \<Rightarrow> int \<Rightarrow> (DateLike option \<times> error option) option" where
  "yqdISODate y q d =
     do { e \<leftarrow> QuarterDate_Validate (QuarterDate y q d);
          Some (validated (DLQuarter (QuarterDate y q d)) e) }"

definition ywdISODate :: "int \<Rightarrow> int \<Rightarrow> int \<Rightarrow> (DateLike option \<times> error option) option" where
  "ywdISODate y w d =
     do { e \<leftarrow> WeekDate_Validate (WeekDate y w d);
          Some (validated (DLWeek (WeekDate y w d)) e) }"

text \<open>A \<open>return 0, nil, &UnexpectedTokenError{...}\<close>.\<close>

definition unexpected ::
  "string \<Rightarrow> string \<Rightarrow> string \<Rightarrow> string \<Rightarrow> (nat \<times> DateLike option \<times> error option) option" where
  "unexpected value token after expected =
     Some (0, None, Some (TokenError (UnexpectedTokenError value token after expected)))"

text \<open>
  \<open>parseDate\<close> is one function in the source.  Its arms are separate definitions here, each
  named after the format its comment in the source names, with the local variables it reads
  (\<open>b\<close> after the sign has been cut off, the year \<open>y\<close>, \<open>signed\<close> (written \<open>signed'\<close>) and the current digit
  count \<open>n\<close>) as parameters.  A result is the triple of the consumed count, the date and
  the error; \<open>None\<close> is a panic.
\<close>

type_synonym parse_result = "(nat \<times> DateLike option \<times> error option) option"

text \<open>\<open>case 'Q'\<close> under \<open>switch b[5]\<close>: 2012-Q4-85, with \<open>n = countDigits(b, 6)\<close>.\<close>

definition parse_extended_quarter :: "string \<Rightarrow> int \<Rightarrow> nat \<Rightarrow> nat \<Rightarrow> parse_result" where
  "parse_extended_quarter b y signed' n =
     (if n \<noteq> 1 then unexpected b (humanizeDigits n) ''Q'' (humanizeDigits 1)
      else do {
        x \<leftarrow> parseNumber b 6 1;
        c7 \<leftarrow> byte_at b 7;
        if c7 \<noteq> CHR ''-''
        then unexpected b (string_of_byte c7) (''Q'' @ Itoa x) ''-''
        else
          let c = countDigits b 8
          in if c \<noteq> 2
             then unexpected b (humanizeDigits c) (''Q'' @ Itoa x @ ''-'') (humanizeDigits 2)
             else do {
               d \<leftarrow> parseNumber b 8 2;
               (dt, err) \<leftarrow> yqdISODate y x d;
               Some (10 + signed', dt, err)
             }
      })"

text \<open>\<open>case 'W'\<close> under \<open>switch b[5]\<close>: 2012-W52-1, with \<open>n = countDigits(b, 6)\<close>.\<close>

definition parse_extended_week :: "string \<Rightarrow> int \<Rightarrow> nat \<Rightarrow> nat \<Rightarrow> parse_result" where
  "parse_extended_week b y signed' n =
     (if n \<noteq> 2 then unexpected b (humanizeDigits n) ''W'' (humanizeDigits 2)
      else do {
        x \<leftarrow> parseNumber b 6 2;
        c8 \<leftarrow> byte_at b 8;
        if c8 \<noteq> CHR ''-''
        then unexpected b (string_of_byte c8) (''W'' @ fmt_0d 2 x) ''-''
        else
          let c = countDigits b 9
          in if c \<noteq> 1
             then unexpected b (humanizeDigits c) (''W'' @ fmt_0d 2 x @ ''-'') (humanizeDigits 1)
             else do {
               d \<leftarrow> parseNumber b 9 1;
               (dt, err) \<leftarrow> ywdISODate y x d;
               Some (10 + signed', dt, err)
             }
      })"

text \<open>\<open>case 2\<close> under \<open>switch n\<close>: 2012-12-24.\<close>

definition parse_extended_calendar :: "string \<Rightarrow> int \<Rightarrow> nat \<Rightarrow> parse_result" where
  "parse_extended_calendar b y signed' =
     do {
       x \<leftarrow> parseNumber b 5 2;
       c7 \<leftarrow> byte_at b 7;
       if c7 \<noteq> CHR ''-''
       then unexpected b (string_of_byte c7) (''-'' @ fmt_0d 2 x) ''-''
       else
         let c = countDigits b 8
         in if c \<noteq> 2
            then unexpected b (humanizeDigits c) (''-'' @ fmt_0d 2 x @ ''-'') (humanizeDigits 2)
            else do {
              d \<leftarrow> parseNumber b 8 2;
              (dt, err) \<leftarrow> ymdISODate y x d;
              Some (10 + signed', dt, err)
            }
     }"

text \<open>\<open>case 3\<close> under \<open>switch n\<close>: 2012-359.\<close>

definition parse_extended_ordinal :: "string \<Rightarrow> int \<Rightarrow> nat \<Rightarrow> parse_result" where
  "parse_extended_ordinal b y signed' =
     do {
       d \<leftarrow> parseNumber b 5 3;
       (dt, err) \<leftarrow> ydISODate y d;
       Some (8 + signed', dt, err)
     }"

text \<open>
  The second \<open>switch n\<close>, reached when \<open>b[4]\<close> is a hyphen, with \<open>n = countDigits(b, 5)\<close>.
  In \<open>case 0\<close> an input shorter than 10 bytes, or one whose \<open>b[5]\<close> is neither Q nor W,
  leaves both switches and reaches the last \<open>return\<close> of the function with the current
  \<open>n\<close>.
\<close>

definition parse_extended :: "string \<Rightarrow> int \<Rightarrow> nat \<Rightarrow> nat \<Rightarrow> parse_result" where
  "parse_extended b y signed' n =
     (if n = 0 then
        (if length b \<ge> 10 then do {
           let n = countDigits b 6;
           c5 \<leftarrow> byte_at b 5;
           if c5 = CHR ''Q'' then parse_extended_quarter b y signed' n
           else if c5 = CHR ''W'' then parse_extended_week b y signed' n
           else unexpected b (humanizeDigits n) [] ''date format''
         }
         else unexpected b (humanizeDigits n) [] ''date format'')
      else if n = 2 then parse_extended_calendar b y signed'
      else if n = 3 then parse_extended_ordinal b y signed'
      else unexpected b (humanizeDigits n) (Itoa y @ ''-'') ''like -Q4-85 or -W52-1 or -359'')"

text \<open>\<open>case 'Q'\<close> under \<open>switch b[4]\<close>: 2012Q485, with \<open>n = countDigits(b, 5)\<close>.\<close>

definition parse_basic_quarter :: "string \<Rightarrow> int \<Rightarrow> nat \<Rightarrow> nat \<Rightarrow> parse_result" where
  "parse_basic_quarter b y signed' n =
     (if n \<noteq> 3 then unexpected b (humanizeDigits n) ''Q'' (humanizeDigits 3)
      else do {
        x \<leftarrow> parseNumber b 5 1;
        d \<leftarrow> parseNumber b 6 2;
        (dt, err) \<leftarrow> yqdISODate y x d;
        Some (8 + signed', dt, err)
      })"

text \<open>\<open>case 'W'\<close> under \<open>switch b[4]\<close>: 2012W521, with \<open>n = countDigits(b, 5)\<close>.\<close>

definition parse_basic_week :: "string \<Rightarrow> int \<Rightarrow> nat \<Rightarrow> nat \<Rightarrow> parse_result" where
  "parse_basic_week b y signed' n =
     (if n \<noteq> 3 then unexpected b (humanizeDigits n) ''W'' (humanizeDigits 3)
      else do {
        x \<leftarrow> parseNumber b 5 2;
        d \<leftarrow> parseNumber b 7 1;
        (dt, err) \<leftarrow> ywdISODate y x d;
        Some (8 + signed', dt, err)
      })"

text \<open>\<open>case 4\<close> of the first \<open>switch n\<close>: the input starts with a year of four digits.\<close>

definition parse_year_first :: "string \<Rightarrow> nat \<Rightarrow> parse_result" where
  "parse_year_first b signed' =
     do {
       y \<leftarrow> parseNumber b 0 4;
       if length b < 8 then do {
         tok \<leftarrow> slice_from b 4;
         unexpected b tok (Itoa y) ''8 or more characters''
       } else do {
         let n = countDigits b 5;
         c4 \<leftarrow> byte_at b 4;
         if c4 = CHR ''-'' then parse_extended b y signed' n
         else if c4 = CHR ''Q'' then parse_basic_quarter b y signed' n
         else if c4 = CHR ''W'' then parse_basic_week b y signed' n
         else do {
           tok \<leftarrow> slice_from b 4;
           unexpected b tok (Itoa y) ''- or Q or W''
         }
       }
     }"

text \<open>The function from \<open>n := countDigits(b, 0)\<close> on, once the sign has been cut off.\<close>

definition parse_after_sign :: "string \<Rightarrow> nat \<Rightarrow> parse_result" where
  "parse_after_sign b signed' =
     (let n = countDigits b 0
      in
      if n = 4 then parse_year_first b signed'
      else if n = 7 then do {
        y \<leftarrow> parseNumber b 0 4;
        d \<leftarrow> parseNumber b 4 3;
        (dt, err) \<leftarrow> ydISODate y d;
        Some (7 + signed', dt, err)
      }
      else if n = 8 then do {
        y \<leftarrow> parseNumber b 0 4;
        x \<leftarrow> parseNumber b 4 2;
        d \<leftarrow> parseNumber b 6 2;
        (dt, err) \<leftarrow> ymdISODate y x d;
        Some (8 + signed', dt, err)
      }
      else unexpected b (humanizeDigits n) [] ''date format'')"

definition parseDate :: "string \<Rightarrow> parse_result" where
  "parseDate b =
     (if length b > 0 \<and> b ! 0 = CHR ''+''
      then parse_after_sign (drop 1 b) 1
      else parse_after_sign b 0)"

definition ParseDate :: "string \<Rightarrow> (DateLike option \<times> error option) option" where
  "ParseDate b =
     do {
       (n, d, err) \<leftarrow> parseDate b;
       if err \<noteq> None then Some (None, err)
       else if length b \<noteq> n then do {
         tok \<leftarrow> slice_from b n;
         after \<leftarrow> slice_to b n;
         Some (None, Some (TokenError (UnexpectedTokenError b tok after after)))
       }
       else Some (d, err)
     }"

section \<open>Leap-year laws\<close>

lemma array_index_quarter [simp]:
  "array_index daysInQuarterList 1 = Some 90"
  "array_index daysInQuarterList 2 = Some 91"
  "array_index daysInQuarterList 3 = Some 92"
  "array_index daysInQuarterList 4 = Some 92"
  by (simp_all add: array_index_def daysInQuarterList_def)

lemma array_index_month_2 [simp]: "array_index daysInMonthList 2 = Some 28"
  by (simp add: array_index_def daysInMonthList_def)

text \<open>
  C6: for every year, \<open>daysInYear\<close> is 366 exactly in leap years, February has 29 days
  exactly in leap years, the first quarter has 91 days exactly in leap years, and the
  quarters of a non-leap year have 90, 91, 92 and 92 days.
\<close>

theorem leap_year_laws:
  "(daysInYear y = 366 \<longleftrightarrow> isLeapYear y) \<and>
   (daysInMonth y 2 = Some 29 \<longleftrightarrow> isLeapYear y) \<and>
   (daysInQuarter y 1 = Some 91 \<longleftrightarrow> isLeapYear y) \<and>
   (\<not> isLeapYear y \<longrightarrow>
      daysInQuarter y 1 = Some 90 \<and> daysInQuarter y 2 = Some 91 \<and>
      daysInQuarter y 3 = Some 92 \<and> daysInQuarter y 4 = Some 92)"
  by (simp add: daysInYear_def daysInMonth_def daysInQuarter_def)

theorem leap_year_laws_witness:
  "\<not> isLeapYear 2013 \<and> daysInYear 2013 \<noteq> 366 \<and> daysInMonth 2013 2 \<noteq> Some 29 \<and>
   daysInQuarter 2013 1 = Some 90 \<and> daysInQuarter 2013 2 = Some 91 \<and>
   daysInQuarter 2013 3 = Some 92 \<and> daysInQuarter 2013 4 = Some 92 \<and>
   isLeapYear 2012 \<and> daysInYear 2012 = 366"
proof -
  have n: "\<not> isLeapYear 2013"
    by (simp add: isLeapYear_def go_rem_def signed_modulo_int_def)
  have l: "isLeapYear 2012"
    by (simp add: isLeapYear_def go_rem_def signed_modulo_int_def)
  show ?thesis
    using n l leap_year_laws [of 2013] leap_year_laws [of 2012] by simp
qed

section \<open>Digit runs and number windows\<close>

definition isDigit :: "char \<Rightarrow> bool" where
  "isDigit c = (\<not> byte c - byte CHR ''0'' > 9)"

definition digit_value :: "char \<Rightarrow> int" where
  "digit_value c = uint (byte c - byte CHR ''0'')"

lemma countDigits_loop_takeWhile:
  "i \<le> length b \<Longrightarrow> countDigits_loop b i = i + length (takeWhile isDigit (drop i b))"
proof (induction b i rule: countDigits_loop.induct)
  case (1 b i)
  show ?case
  proof (cases "i < length b")
    case True
    then have d: "drop i b = b ! i # drop (Suc i) b" by (simp add: Cons_nth_drop_Suc)
    show ?thesis
    proof (cases "byte (b ! i) - byte CHR ''0'' > 9")
      case True
      then show ?thesis using \<open>i < length b\<close> d
        by (subst countDigits_loop.simps) (simp add: isDigit_def)
    next
      case False
      then have "countDigits_loop b i = countDigits_loop b (i + 1)"
        using \<open>i < length b\<close> by (subst countDigits_loop.simps) simp
      also have "\<dots> = (i + 1) + length (takeWhile isDigit (drop (i + 1) b))"
        using "1.IH"[OF True refl False] True by simp
      finally show ?thesis using d False by (simp add: isDigit_def[symmetric])
    qed
  next
    case False
    then show ?thesis using "1.prems" by (subst countDigits_loop.simps) simp
  qed
qed

lemma countDigits_takeWhile: "countDigits b i = length (takeWhile isDigit (drop i b))"
proof (cases "i \<le> length b")
  case True
  then show ?thesis by (simp add: countDigits_def countDigits_loop_takeWhile)
next
  case False
  then have "countDigits_loop b i = i" by (subst countDigits_loop.simps) simp
  then show ?thesis using False by (simp add: countDigits_def)
qed

lemma countDigits_le: "countDigits b i \<le> length b - i"
  unfolding countDigits_takeWhile
  by (rule order_trans[OF length_takeWhile_le]) simp

lemma parseNumber_loop_Some:
  "start + w \<le> length b \<Longrightarrow> \<exists>r. parseNumber_loop b start w v = Some r"
  by (induction w arbitrary: start v) (simp_all add: byte_at_def)

lemma parseNumber_Some: "start + w \<le> length b \<Longrightarrow> \<exists>r. parseNumber b start w = Some r"
  by (simp add: parseNumber_def parseNumber_loop_Some)

lemma parseNumber_1:
  "start + 1 \<le> length b \<Longrightarrow> parseNumber b start 1 = Some (digit_value (b ! start))"
  by (simp add: parseNumber_def byte_at_def digit_value_def)

lemma parseNumber_2:
  assumes "start + 2 \<le> length b"
  shows "parseNumber b start 2 =
    Some (digit_value (b ! start) * 10 + digit_value (b ! (start + 1)))"
proof -
  have n: "(2::nat) = Suc (Suc 0)" by simp
  show ?thesis using assms unfolding parseNumber_def n
    by (simp add: byte_at_def digit_value_def)
qed

lemma parseNumber_3:
  assumes "start + 3 \<le> length b"
  shows "parseNumber b start 3 =
    Some (digit_value (b ! start) * 100 + digit_value (b ! (start + 1)) * 10
      + digit_value (b ! (start + 2)))"
proof -
  have n: "(3::nat) = Suc (Suc (Suc 0))" by simp
  have s: "start + 2 = Suc (Suc start)" by simp
  show ?thesis using assms unfolding parseNumber_def n s
    by (simp add: byte_at_def digit_value_def)
qed

lemma parseNumber_4:
  assumes "start + 4 \<le> length b"
  shows "parseNumber b start 4 =
    Some (digit_value (b ! start) * 1000 + digit_value (b ! (start + 1)) * 100
      + digit_value (b ! (start + 2)) * 10 + digit_value (b ! (start + 3)))"
proof -
  have n: "(4::nat) = Suc (Suc (Suc (Suc 0)))" by simp
  have s: "start + 2 = Suc (Suc start)" "start + 3 = Suc (Suc (Suc start))" by simp_all
  show ?thesis using assms unfolding parseNumber_def n s
    by (simp add: byte_at_def digit_value_def)
qed

lemma daysInMonth_Some: "1 \<le> m \<Longrightarrow> m \<le> 12 \<Longrightarrow> \<exists>n. daysInMonth y m = Some n"
  by (simp add: daysInMonth_def array_index_def daysInMonthList_def)

lemma daysInQuarter_Some: "1 \<le> q \<Longrightarrow> q \<le> 4 \<Longrightarrow> \<exists>n. daysInQuarter y q = Some n"
  by (simp add: daysInQuarter_def array_index_def daysInQuarterList_def)

lemma Date_Validate_Some: "\<exists>e. Date_Validate d = Some e"
proof (cases "1 \<le> Date.Month d \<and> Date.Month d \<le> 12")
  case True
  then obtain n where "daysInMonth (Date.Year d) (Date.Month d) = Some n"
    using daysInMonth_Some by blast
  then show ?thesis by (simp add: Date_Validate_def)
next
  case False
  then show ?thesis by (auto simp: Date_Validate_def)
qed

lemma QuarterDate_Validate_Some: "\<exists>e. QuarterDate_Validate q = Some e"
proof (cases "1 \<le> Quarter q \<and> Quarter q \<le> 4")
  case True
  then obtain n where "daysInQuarter (QuarterDate.Year q) (Quarter q) = Some n"
    using daysInQuarter_Some by blast
  then show ?thesis by (simp add: QuarterDate_Validate_def)
next
  case False
  then show ?thesis by (auto simp: QuarterDate_Validate_def)
qed

lemma WeekDate_Validate_Some: "\<exists>e. WeekDate_Validate w = Some e"
  by (simp add: WeekDate_Validate_def Let_def)

lemma OrdinalDate_Validate_Some: "\<exists>e. OrdinalDate_Validate w = Some e"
  by (simp add: OrdinalDate_Validate_def Let_def)

lemma Validate_Some: "\<exists>e. Validate v = Some e"
  by (cases v) (simp_all add: Date_Validate_Some QuarterDate_Validate_Some
      WeekDate_Validate_Some OrdinalDate_Validate_Some)

definition exclusive :: "DateLike option \<times> error option \<Rightarrow> bool" where
  "exclusive r = ((fst r = None) = (snd r \<noteq> None))"

lemma ISODate_Some:
  "\<exists>r. ydISODate y d = Some r \<and> exclusive r"
  "\<exists>r. ymdISODate y m d = Some r \<and> exclusive r"
  "\<exists>r. yqdISODate y m d = Some r \<and> exclusive r"
  "\<exists>r. ywdISODate y m d = Some r \<and> exclusive r"
  using OrdinalDate_Validate_Some[of "OrdinalDate y d"] Date_Validate_Some[of "Date y m d"]
    QuarterDate_Validate_Some[of "QuarterDate y m d"] WeekDate_Validate_Some[of "WeekDate y m d"]
  by (auto simp: ydISODate_def ymdISODate_def yqdISODate_def ywdISODate_def validated_def
      exclusive_def split: option.splits)

section \<open>The parser never panics\<close>

text \<open>
  A result is well formed when the function returned (no panic), exactly one of the date
  and the error is \<open>nil\<close>, and the consumed count is within the bound \<open>m\<close>.
\<close>

definition parsed :: "string \<Rightarrow> nat \<Rightarrow> nat \<Rightarrow> int" where
  "parsed b start w = the (parseNumber b start w)"

lemma parseNumber_parsed: "start + w \<le> length b \<Longrightarrow> parseNumber b start w = Some (parsed b start w)"
  using parseNumber_Some[of start w b] by (auto simp: parsed_def)

definition wf_result :: "nat \<Rightarrow> parse_result \<Rightarrow> bool" where
  "wf_result m r = (\<exists>n d e. r = Some (n, d, e) \<and> exclusive (d, e) \<and> n \<le> m)"

lemma wf_unexpected [simp]: "wf_result m (unexpected v t a e)"
  by (simp add: wf_result_def unexpected_def exclusive_def)

lemma wf_ISODate:
  "k \<le> m \<Longrightarrow> wf_result m (ydISODate y d \<bind> (\<lambda>(dt, err). Some (k, dt, err)))"
  "k \<le> m \<Longrightarrow> wf_result m (ymdISODate y x d \<bind> (\<lambda>(dt, err). Some (k, dt, err)))"
  "k \<le> m \<Longrightarrow> wf_result m (yqdISODate y x d \<bind> (\<lambda>(dt, err). Some (k, dt, err)))"
  "k \<le> m \<Longrightarrow> wf_result m (ywdISODate y x d \<bind> (\<lambda>(dt, err). Some (k, dt, err)))"
  using ISODate_Some(1)[of y d] ISODate_Some(2)[of y x d] ISODate_Some(3)[of y x d]
    ISODate_Some(4)[of y x d]
  by (auto simp: wf_result_def exclusive_def)

lemma wf_extended_quarter:
  assumes "10 \<le> length b"
  shows "wf_result (length b + s) (parse_extended_quarter b y s n)"
  using assms countDigits_le[of b 8]
  by (simp add: parse_extended_quarter_def parseNumber_parsed byte_at_def Let_def wf_ISODate)

lemma wf_extended_week:
  assumes "10 \<le> length b"
  shows "wf_result (length b + s) (parse_extended_week b y s n)"
  using assms countDigits_le[of b 9]
  by (simp add: parse_extended_week_def parseNumber_parsed byte_at_def Let_def wf_ISODate)

lemma wf_extended_calendar:
  assumes "8 \<le> length b"
  shows "wf_result (length b + s) (parse_extended_calendar b y s)"
proof (cases "countDigits b 8 = 2")
  case True
  then have "10 \<le> length b" using countDigits_le[of b 8] by simp
  then show ?thesis
    by (simp add: parse_extended_calendar_def parseNumber_parsed byte_at_def Let_def wf_ISODate)
next
  case False
  then show ?thesis using assms
    by (simp add: parse_extended_calendar_def parseNumber_parsed byte_at_def Let_def)
qed

lemma wf_extended_ordinal:
  assumes "8 \<le> length b"
  shows "wf_result (length b + s) (parse_extended_ordinal b y s)"
  using assms
  by (simp add: parse_extended_ordinal_def parseNumber_parsed wf_ISODate)

lemma wf_extended:
  assumes "8 \<le> length b"
  shows "wf_result (length b + s) (parse_extended b y s n)"
  using assms
  by (simp add: parse_extended_def byte_at_def Let_def wf_extended_quarter wf_extended_week
      wf_extended_calendar wf_extended_ordinal)

lemma wf_basic_quarter:
  assumes "8 \<le> length b"
  shows "wf_result (length b + s) (parse_basic_quarter b y s n)"
  using assms
  by (simp add: parse_basic_quarter_def parseNumber_parsed wf_ISODate)

lemma wf_basic_week:
  assumes "8 \<le> length b"
  shows "wf_result (length b + s) (parse_basic_week b y s n)"
  using assms
  by (simp add: parse_basic_week_def parseNumber_parsed wf_ISODate)

lemma wf_year_first:
  assumes "countDigits b 0 = 4"
  shows "wf_result (length b + s) (parse_year_first b s)"
proof -
  have "4 \<le> length b" using countDigits_le[of b 0] assms by simp
  then show ?thesis
    by (simp add: parse_year_first_def parseNumber_parsed slice_from_def byte_at_def Let_def
        wf_extended wf_basic_quarter wf_basic_week not_less)
qed

lemma wf_after_sign: "wf_result (length b + s) (parse_after_sign b s)"
proof -
  consider "countDigits b 0 = 4" | "countDigits b 0 = 7" | "countDigits b 0 = 8"
    | "countDigits b 0 \<noteq> 4" "countDigits b 0 \<noteq> 7" "countDigits b 0 \<noteq> 8" by blast
  then show ?thesis
  proof cases
    case 1
    then show ?thesis by (simp add: parse_after_sign_def wf_year_first)
  next
    case 2
    then have "7 \<le> length b" using countDigits_le[of b 0] by simp
    then show ?thesis using 2
      by (simp add: parse_after_sign_def parseNumber_parsed wf_ISODate)
  next
    case 3
    then have "8 \<le> length b" using countDigits_le[of b 0] by simp
    then show ?thesis using 3
      by (simp add: parse_after_sign_def parseNumber_parsed wf_ISODate)
  next
    case 4
    then show ?thesis by (simp add: parse_after_sign_def)
  qed
qed

lemma wf_parseDate: "wf_result (length b) (parseDate b)"
proof (cases "length b > 0 \<and> b ! 0 = CHR ''+''")
  case True
  then have "length b = length (drop 1 b) + 1" by simp
  then show ?thesis using wf_after_sign[of "drop 1 b" 1] True
    by (simp add: parseDate_def)
next
  case False
  then show ?thesis using wf_after_sign[of b 0] by (auto simp add: parseDate_def)
qed


text \<open>
  C9: for every byte sequence \<open>parseDate\<close> and \<open>ParseDate\<close> return (the model's panic
  value, which every index or slice outside the input produces, is never the result):
  the result is either a date or an error, never both and never neither, and the
  consumed count of \<open>parseDate\<close> is at most the length of the input.
\<close>

theorem parseDate_never_panics:
  "(\<exists>n d e. parseDate b = Some (n, d, e) \<and> (d = None \<longleftrightarrow> e \<noteq> None) \<and> n \<le> length b) \<and>
   (\<exists>d e. ParseDate b = Some (d, e) \<and> (d = None \<longleftrightarrow> e \<noteq> None))"
proof -
  obtain n d e where r: "parseDate b = Some (n, d, e)" and x: "d = None \<longleftrightarrow> e \<noteq> None"
    and n: "n \<le> length b"
    using wf_parseDate[of b] by (auto simp: wf_result_def exclusive_def)
  have "\<exists>d e. ParseDate b = Some (d, e) \<and> (d = None \<longleftrightarrow> e \<noteq> None)"
    using r x n by (auto simp: ParseDate_def slice_from_def slice_to_def)
  then show ?thesis using r x n by simp
qed

theorem parseDate_never_panics_witness:
  "(\<exists>n d e. parseDate ''+'' = Some (n, d, e) \<and> (d = None \<longleftrightarrow> e \<noteq> None) \<and> n \<le> length ''+'') \<and>
   (\<exists>d e. ParseDate ''+'' = Some (d, e) \<and> (d = None \<longleftrightarrow> e \<noteq> None))"
  using parseDate_never_panics [of "''+''"] by simp

section \<open>Anchor values and strict consumption\<close>

text \<open>
  C8: the parser and the conversions give the ISO anchor values: \<open>2012W521\<close> is week 52,
  day 1 of 2012; \<open>2012-Q4-85\<close> is day 85 of the fourth quarter of 2012; day 60 of 2008 is
  2008-02-29; day 85 of the fourth quarter of 2012 is 2012-12-24; day 4 of week 53 of 2009
  is 2009-12-31.
\<close>

theorem anchor_values:
  "ParseDate ''2012W521'' = Some (Some (DLWeek (WeekDate 2012 52 1)), None) \<and>
   ParseDate ''2012-Q4-85'' = Some (Some (DLQuarter (QuarterDate 2012 4 85)), None) \<and>
   OrdinalDate_Date (OrdinalDate 2008 60) = Date 2008 2 29 \<and>
   QuarterDate_Date (QuarterDate 2012 4 85) = Some (Date 2012 12 24) \<and>
   WeekDate_Date (WeekDate 2009 53 4) = Date 2009 12 31"
  by code_simp

theorem anchor_values_witness:
  "ParseDate ''2012W521'' = Some (Some (DLWeek (WeekDate 2012 52 1)), None) \<and>
   WeekDate_Date (WeekDate 2009 53 4) = Date 2009 12 31"
  using anchor_values by simp

lemma parseDate_Hello:
  "parseDate ''20121224Hello'' = Some (8, Some (DLDate (Date 2012 12 24)), None)"
  by code_simp

text \<open>
  C3: when \<open>parseDate\<close> reads a complete date from the front of the input and consumes
  fewer bytes than the input has, \<open>ParseDate\<close> returns no date and an
  \<open>UnexpectedTokenError\<close> whose \<open>Token\<close> is the unconsumed suffix and whose
  \<open>AfterToken\<close> is the consumed prefix.
\<close>

theorem strict_consumption:
  assumes "parseDate b = Some (n, Some d, None)" and "n < length b"
  shows "ParseDate b =
    Some (None, Some (TokenError (UnexpectedTokenError b (drop n b) (take n b) (take n b))))"
  using assms by (simp add: ParseDate_def slice_from_def slice_to_def)

theorem strict_consumption_witness:
  "ParseDate ''20121224Hello'' =
    Some (None, Some (TokenError
      (UnexpectedTokenError ''20121224Hello'' ''Hello'' ''20121224'' ''20121224'')))"
  using strict_consumption [OF parseDate_Hello] by simp

section \<open>The year of an ordinal date\<close>

text \<open>
  C10: \<open>OrdinalDate.Date\<close> keeps the year of its receiver whatever the day is: day 366 of
  2013 becomes 2013-01-01, although the day computed for it is 2014-01-01.  The week and
  quarter conversions take the year from the computed day: day 93 of the fourth quarter of
  2013 becomes 2014-01-01, and day 1 of week 1 of 2013 becomes 2012-12-31.
\<close>

theorem ordinal_year_kept:
  "Date.Year (OrdinalDate_Date o') = OrdinalDate.Year o' \<and>
   OrdinalDate_Date (OrdinalDate 2013 366) = Date 2013 1 1 \<and>
   Date_of_Time (AddDate (time_Date 2013 1 1) 0 0 (go_sub 366 1)) = Date 2014 1 1 \<and>
   QuarterDate_Date (QuarterDate 2013 4 93) = Some (Date 2014 1 1) \<and>
   WeekDate_Date (WeekDate 2013 1 1) = Date 2012 12 31"
proof -
  have "Date.Year (OrdinalDate_Date o') = OrdinalDate.Year o'"
    by (simp add: OrdinalDate_Date_def Let_def)
  moreover have "OrdinalDate_Date (OrdinalDate 2013 366) = Date 2013 1 1" by code_simp
  moreover have "Date_of_Time (AddDate (time_Date 2013 1 1) 0 0 (go_sub 366 1)) = Date 2014 1 1"
    by code_simp
  moreover have "QuarterDate_Date (QuarterDate 2013 4 93) = Some (Date 2014 1 1)" by code_simp
  moreover have "WeekDate_Date (WeekDate 2013 1 1) = Date 2012 12 31" by code_simp
  ultimately show ?thesis by simp
qed

theorem ordinal_year_kept_witness:
  "Date.Year (OrdinalDate_Date (OrdinalDate 2011 400)) = 2011"
  using ordinal_year_kept [of "OrdinalDate 2011 400"] by simp

section \<open>A leading plus sign\<close>

text \<open>
  The sign only moves the consumed count: with \<open>signed\<close> set, every arm returns what it
  returns without it, except that the count of a result that is not a syntax error is
  larger by \<open>signed\<close>.
\<close>

definition shift :: "nat \<Rightarrow> nat \<times> DateLike option \<times> error option \<Rightarrow> nat \<times> DateLike option \<times> error option" where
  "shift s r = (case r of (n, d, e) \<Rightarrow>
     (case e of Some (TokenError t) \<Rightarrow> (n, d, e) | _ \<Rightarrow> (n + s, d, e)))"

lemma shift_unexpected [simp]: "map_option (shift s) (unexpected v t a e) = unexpected v t a e"
  by (simp add: unexpected_def shift_def)

lemma validated_no_token: "snd (validated v e) \<noteq> Some (TokenError t)"
  by (simp add: validated_def split: option.splits)

lemma shift_ISODate:
  "(ydISODate y d \<bind> (\<lambda>(dt, err). Some (k + s, dt, err))) =
     map_option (shift s) (ydISODate y d \<bind> (\<lambda>(dt, err). Some (k, dt, err)))"
  "(ymdISODate y x d \<bind> (\<lambda>(dt, err). Some (k + s, dt, err))) =
     map_option (shift s) (ymdISODate y x d \<bind> (\<lambda>(dt, err). Some (k, dt, err)))"
  "(yqdISODate y x d \<bind> (\<lambda>(dt, err). Some (k + s, dt, err))) =
     map_option (shift s) (yqdISODate y x d \<bind> (\<lambda>(dt, err). Some (k, dt, err)))"
  "(ywdISODate y x d \<bind> (\<lambda>(dt, err). Some (k + s, dt, err))) =
     map_option (shift s) (ywdISODate y x d \<bind> (\<lambda>(dt, err). Some (k, dt, err)))"
  by (auto simp: ydISODate_def ymdISODate_def yqdISODate_def ywdISODate_def validated_def shift_def
      split: option.splits Option.bind_splits)

lemmas shift_push = map_option_bind o_def if_distrib[where f = "map_option (shift s)" for s]
  Let_def

lemma shift_extended_quarter:
  "parse_extended_quarter b y s n = map_option (shift s) (parse_extended_quarter b y 0 n)"
  unfolding parse_extended_quarter_def
  by (simp add: shift_push shift_ISODate[where k = 10 and s = s] cong: if_cong)

lemma shift_extended_week:
  "parse_extended_week b y s n = map_option (shift s) (parse_extended_week b y 0 n)"
  unfolding parse_extended_week_def
  by (simp add: shift_push shift_ISODate[where k = 10 and s = s] cong: if_cong)

lemma shift_extended_calendar:
  "parse_extended_calendar b y s = map_option (shift s) (parse_extended_calendar b y 0)"
  unfolding parse_extended_calendar_def
  by (simp add: shift_push shift_ISODate[where k = 10 and s = s] cong: if_cong)

lemma shift_extended_ordinal:
  "parse_extended_ordinal b y s = map_option (shift s) (parse_extended_ordinal b y 0)"
  unfolding parse_extended_ordinal_def
  by (simp add: shift_push shift_ISODate[where k = 8 and s = s] cong: if_cong)

lemma shift_basic_quarter:
  "parse_basic_quarter b y s n = map_option (shift s) (parse_basic_quarter b y 0 n)"
  unfolding parse_basic_quarter_def
  by (simp add: shift_push shift_ISODate[where k = 8 and s = s] cong: if_cong)

lemma shift_basic_week:
  "parse_basic_week b y s n = map_option (shift s) (parse_basic_week b y 0 n)"
  unfolding parse_basic_week_def
  by (simp add: shift_push shift_ISODate[where k = 8 and s = s] cong: if_cong)

lemma shift_extended:
  "parse_extended b y s n = map_option (shift s) (parse_extended b y 0 n)"
  unfolding parse_extended_def
  by (simp add: shift_push shift_extended_quarter[of b y s] shift_extended_week[of b y s]
      shift_extended_calendar[of b y s] shift_extended_ordinal[of b y s] cong: if_cong)

lemma shift_year_first:
  "parse_year_first b s = map_option (shift s) (parse_year_first b 0)"
  unfolding parse_year_first_def
  by (simp add: shift_push shift_extended[of b _ s] shift_basic_quarter[of b _ s]
      shift_basic_week[of b _ s] cong: if_cong)

lemma shift_after_sign:
  "parse_after_sign b s = map_option (shift s) (parse_after_sign b 0)"
  unfolding parse_after_sign_def
  by (simp add: shift_push shift_year_first[of b s] shift_ISODate[where k = 7 and s = s]
      shift_ISODate[where k = 8 and s = s] cong: if_cong)


lemma parseDate_2012_359:
  "parseDate ''2012-359'' = Some (8, Some (DLOrdinal (OrdinalDate 2012 359)), None)"
  by code_simp

text \<open>
  C7, as amended: for every input that does not itself begin with a plus sign and on which
  \<open>parseDate\<close> succeeds, the input with one plus sign put in front gives the same date
  value (so the same format) with a consumed count larger by exactly one.
\<close>

theorem sign_transparency:
  assumes "parseDate b = Some (n, Some d, None)"
    and "\<not> (length b > 0 \<and> b ! 0 = CHR ''+'')"
  shows "parseDate (CHR ''+'' # b) = Some (n + 1, Some d, None)"
proof -
  have "parse_after_sign b 0 = Some (n, Some d, None)"
    using assms by (auto simp: parseDate_def split: if_splits)
  then have "parse_after_sign b 1 = Some (n + 1, Some d, None)"
    by (subst shift_after_sign) (simp add: shift_def)
  then show ?thesis by (simp add: parseDate_def)
qed


theorem sign_transparency_witness:
  "parseDate ''2012-359'' = Some (8, Some (DLOrdinal (OrdinalDate 2012 359)), None) \<and>
   parseDate ''+2012-359'' = Some (9, Some (DLOrdinal (OrdinalDate 2012 359)), None)"
  using sign_transparency [OF parseDate_2012_359] parseDate_2012_359 by simp

text \<open>
  The claim as stated, for every input on which parsing succeeds, fails on an input that
  already begins with a plus sign: only one sign is cut off, and the second one is not a
  digit.
\<close>

theorem sign_twice_counterexample:
  "parseDate ''+2012-359'' = Some (9, Some (DLOrdinal (OrdinalDate 2012 359)), None) \<and>
   parseDate ''++2012-359'' =
     Some (0, None, Some (TokenError
       (UnexpectedTokenError ''+2012-359'' ''0-digit'' [] ''date format'')))"
  by code_simp

end
